theory Spec2Isabelle
  imports Main
begin

section \<open>Constants of the two modules\<close>

definition INTERVAL_MS :: int where
  "INTERVAL_MS = 60"

definition THROTTLE_MS :: int where
  "THROTTLE_MS = 600"

definition MAX_BATCH_SIZE :: nat where
  "MAX_BATCH_SIZE = 200"

section \<open>Strings\<close>

text \<open>
  \<^verbatim>\<open>str.split("\n")\<close> of JavaScript: the pieces between the separators, so a string
  with \<open>n\<close> separators has \<open>n + 1\<close> pieces and the empty string has the one piece \<open>""\<close>.
\<close>

fun split :: "char \<Rightarrow> string \<Rightarrow> string list" where
  "split c [] = [[]]"
| "split c (x # xs) =
     (if x = c then [] # split c xs
      else (case split c xs of
              [] \<Rightarrow> [[x]]
            | l # ls \<Rightarrow> (x # l) # ls))"

definition newline :: char where
  "newline = CHR 0x0A"

definition splitLines :: "string \<Rightarrow> string list" where
  "splitLines s = split newline s"

text \<open>\<^verbatim>\<open>arr[y]\<close> of JavaScript: \<^verbatim>\<open>undefined\<close> (here \<open>None\<close>) out of range.\<close>

definition at :: "'a list \<Rightarrow> nat \<Rightarrow> 'a option" where
  "at xs i = (if i < length xs then Some (xs ! i) else None)"

section \<open>The terminal entries and the writer\<close>

type_synonym Coords = "nat \<times> nat"

record TerminalEntry =
  key :: string
  "text" :: string
  lineNumber :: nat
  spinnerCoords :: "Coords option"

text \<open>
  The calls the writer makes on the screen, on its main box, on the cursor and on the
  standard output, in the order it makes them.
\<close>

datatype Call =
    SetLine nat string
  | SetScrollPerc nat
  | SetContent string
  | ScreenRender
  | ScreenDestroy
  | CursorShow
  | StdoutWrite string

text \<open>
  The fields of \<^verbatim>\<open>FullscreenTerminalWriter\<close>. \<open>intervalID\<close> holds the entries the
  running interval was started on (\<open>None\<close> is \<^verbatim>\<open>null\<close>), \<open>spinners\<close> the frame counter
  of the spinner of each key, \<open>logger\<close> whether the field has been assigned. \<open>timeouts\<close>
  records the callbacks handed to \<^verbatim>\<open>setTimeout\<close>: the time they are due and the key of the
  entry they hold. The last three fields are the canvas: \<open>main\<close> holds the text of each row
  of the main box, \<open>mainWidth\<close> its width, and \<open>calls\<close> every call made on the screen, the
  box, the cursor and the standard output.
\<close>

record Writer =
  level :: nat
  spinners :: "string \<rightharpoonup> nat"
  intervalID :: "TerminalEntry list option"
  lastInterceptAt :: "int option"
  updatePending :: bool
  initialized :: bool
  errorMessages :: "string list"
  prevOutput :: "string list"
  scrolling :: bool
  logger :: bool
  timeouts :: "(int \<times> string) list"
  main :: "nat \<rightharpoonup> string"
  mainWidth :: int
  calls :: "Call list"

text \<open>
  Modelled from the spec: the canvas service (the screen and the boxes of the terminal
  library) is not part of the source. "Set line N to text" gives row N of the main box
  the text, setting the content of the box gives it the lines of the content, and the
  other calls (scroll, repaint) leave the text of the rows as it is.
\<close>

definition setLine :: "nat \<Rightarrow> string \<Rightarrow> Writer \<Rightarrow> Writer" where
  "setLine y line w = w\<lparr>main := (main w)(y \<mapsto> line), calls := calls w @ [SetLine y line]\<rparr>"

definition setScrollPerc :: "nat \<Rightarrow> Writer \<Rightarrow> Writer" where
  "setScrollPerc p w = w\<lparr>calls := calls w @ [SetScrollPerc p]\<rparr>"

definition setContent :: "string \<Rightarrow> Writer \<Rightarrow> Writer" where
  "setContent s w =
     w\<lparr>main := (\<lambda>y. if s = [] then None else at (splitLines s) y),
       calls := calls w @ [SetContent s]\<rparr>"

definition screenRender :: "Writer \<Rightarrow> Writer" where
  "screenRender w = w\<lparr>calls := calls w @ [ScreenRender]\<rparr>"

subsection \<open>The diff writer\<close>

text \<open>
  \<^verbatim>\<open>write\<close>, named \<open>writeOutput\<close> here (\<open>write\<close> is a command of Isabelle), and its loop
  with the two variables \<open>y\<close> and \<open>changed\<close>. The test of the loop is
  \<^verbatim>\<open>this.prevOutput.length < y || this.prevOutput[y] !== line\<close>.
\<close>

fun writeLoop :: "string list \<Rightarrow> nat \<Rightarrow> bool \<Rightarrow> Writer \<Rightarrow> bool \<times> Writer" where
  "writeLoop [] y changed w = (changed, w)"
| "writeLoop (line # rest) y changed w =
     (if length (prevOutput w) < y \<or> at (prevOutput w) y \<noteq> Some line
      then writeLoop rest (Suc y) True (setLine y line w)
      else writeLoop rest (Suc y) changed w)"

definition writeOutput :: "string list \<Rightarrow> Writer \<Rightarrow> Writer" where
  "writeOutput output w =
     (case writeLoop output 0 False w of
        (changed, w1) \<Rightarrow>
          if changed
          then screenRender (if \<not> scrolling w1 then setScrollPerc 100 w1 else w1)
          else w1)"

text \<open>The \<^verbatim>\<open>setLine\<close> calls among a list of calls, as (row, text) pairs.\<close>

fun setLines :: "Call list \<Rightarrow> (nat \<times> string) list" where
  "setLines [] = []"
| "setLines (SetLine y l # cs) = (y, l) # setLines cs"
| "setLines (c # cs) = setLines cs"

text \<open>The calls a step adds to the ones made before it.\<close>

definition newCalls :: "Writer \<Rightarrow> Writer \<Rightarrow> Call list" where
  "newCalls w w' = drop (length (calls w)) (calls w')"

text \<open>
  Row \<open>y\<close> of the new output differs from the previous output: it is new, or its text is
  another one.
\<close>

definition rowDiffers :: "string list \<Rightarrow> string list \<Rightarrow> nat \<Rightarrow> bool" where
  "rowDiffers prev output y \<longleftrightarrow> length prev \<le> y \<or> prev ! y \<noteq> output ! y"

subsection \<open>The log entries and the functions that render them\<close>

text \<open>
  Modelled from the spec: the log graph is not part of the source. An entry has a key, a
  level, the status of its message state, and says whether it comes from a standard
  stream; the graph (\<^verbatim>\<open>getChildEntries(logger)\<close>) is the list of its entries in
  traversal order.
\<close>

datatype EntryStatus = Active | Done | Error | Unknown

record LogEntry =
  entryKey :: string
  entryLevel :: nat
  status :: EntryStatus
  fromStdStream :: bool
  msg :: string

definition LogLevel_error :: nat where
  "LogLevel_error = 0"

definition LogLevel_info :: nat where
  "LogLevel_info = 2"

text \<open>
  The functions the writer imports (\<^verbatim>\<open>../renderers\<close>, \<^verbatim>\<open>wrap-ansi\<close>, \<^verbatim>\<open>chalk\<close>,
  \<^verbatim>\<open>elegant-spinner\<close>) are parameters of the model. \<open>frames\<close> are the glyphs of
  \<^verbatim>\<open>elegantSpinner\<close>, a generator that steps through them cyclically.
\<close>

record Renderers =
  leftPad :: "LogEntry \<Rightarrow> string"
  renderMsg :: "LogEntry \<Rightarrow> string"
  formatForTerminal :: "LogEntry \<Rightarrow> string"
  basicRender :: "LogEntry \<Rightarrow> string"
  wrapAnsi :: "string \<Rightarrow> int \<Rightarrow> string"
  spinnerStyle :: "string \<Rightarrow> string"
  frames :: "string list"

subsection \<open>Construction and the spinner loop\<close>

definition newWriter :: "nat \<Rightarrow> Writer" where
  "newWriter lvl =
     \<lparr>level = lvl, spinners = Map.empty, intervalID = None, lastInterceptAt = None,
      updatePending = False, initialized = False, errorMessages = [], prevOutput = [],
      scrolling = False, logger = False, timeouts = [], main = Map.empty, mainWidth = 0,
      calls = []\<rparr>"

text \<open>\<^verbatim>\<open>init\<close> creates the screen and its boxes; \<open>width\<close> is the width the main box gets.\<close>

definition init :: "int \<Rightarrow> Writer \<Rightarrow> Writer" where
  "init width w =
     w\<lparr>main := Map.empty, mainWidth := width, calls := calls w @ [ScreenRender],
       initialized := True\<rparr>"

definition stopLoop :: "Writer \<Rightarrow> Writer" where
  "stopLoop w = (if intervalID w \<noteq> None then w\<lparr>intervalID := None\<rparr> else w)"

definition startLoop :: "TerminalEntry list \<Rightarrow> Writer \<Rightarrow> Writer" where
  "startLoop entries w = (stopLoop w)\<lparr>intervalID := Some entries\<rparr>"

text \<open>
  \<^verbatim>\<open>tickSpinner\<close>, on the map \<^verbatim>\<open>this.spinners\<close>: a key without a spinner gets a fresh
  one; the spinner of the key then gives its next frame. A fresh generator starts at
  counter 0 and a call returns \<^verbatim>\<open>frames[i = ++i % frames.length]\<close>; \<^verbatim>\<open>undefined\<close> is the
  empty (falsy) string here.
\<close>

definition tickSpinner ::
  "Renderers \<Rightarrow> string \<Rightarrow> (string \<rightharpoonup> nat) \<Rightarrow> string \<times> (string \<rightharpoonup> nat)" where
  "tickSpinner R k sp =
     (let i = (case sp k of None \<Rightarrow> 0 | Some j \<Rightarrow> j);
          i' = Suc i mod length (frames R)
      in (case at (frames R) i' of None \<Rightarrow> [] | Some f \<Rightarrow> f, sp(k \<mapsto> i')))"

subsection \<open>The snapshot builder\<close>

text \<open>
  The body of the function \<^verbatim>\<open>fullRender\<close> reduces with, up to the push: the text of the
  entry, its spinner coordinates, and the spinners with the one of the entry ticked or
  deleted. \<open>width\<close> is \<^verbatim>\<open>this.main.width\<close>.
\<close>

definition renderEntry ::
  "Renderers \<Rightarrow> int \<Rightarrow> LogEntry \<Rightarrow> nat \<Rightarrow> (string \<rightharpoonup> nat)
     \<Rightarrow> string \<times> Coords option \<times> (string \<rightharpoonup> nat)" where
  "renderEntry R width entry currentLineNumber sp =
     (let spinnerX = length (leftPad R entry);
          (spinnerFrame, coords, sp1) =
            (if status entry = Active
             then (case tickSpinner R (entryKey entry) sp of
                     (f, sp') \<Rightarrow> (f, Some (spinnerX, currentLineNumber), sp'))
             else ([], None, sp(entryKey entry := None)));
          str = (if fromStdStream entry then renderMsg R entry else formatForTerminal R entry);
          str1 = (if spinnerFrame \<noteq> []
                  then take spinnerX str @ spinnerStyle R spinnerFrame @ '' '' @ drop spinnerX str
                  else str)
      in (wrapAnsi R str1 (width - 2), coords, sp1))"

text \<open>\<^verbatim>\<open>text.split("\n").length\<close>.\<close>

definition lineCount :: "string \<Rightarrow> nat" where
  "lineCount t = length (splitLines t)"

fun reduceEntries ::
  "Renderers \<Rightarrow> int \<Rightarrow> LogEntry list \<Rightarrow> TerminalEntry list \<Rightarrow> nat \<Rightarrow> (string \<rightharpoonup> nat)
     \<Rightarrow> TerminalEntry list \<times> (string \<rightharpoonup> nat)" where
  "reduceEntries R width [] acc currentLineNumber sp = (acc, sp)"
| "reduceEntries R width (entry # rest) acc currentLineNumber sp =
     (case renderEntry R width entry currentLineNumber sp of
        (t, coords, sp1) \<Rightarrow>
          reduceEntries R width rest
            (if t \<noteq> []
             then acc @ [\<lparr>key = entryKey entry, text = t, lineNumber = currentLineNumber,
                          spinnerCoords = coords\<rparr>]
             else acc)
            (currentLineNumber + (lineCount t - 1)) sp1)"

definition fullRender :: "Renderers \<Rightarrow> LogEntry list \<Rightarrow> Writer \<Rightarrow> TerminalEntry list \<times> Writer" where
  "fullRender R entries w =
     (case reduceEntries R (mainWidth w)
             (filter (\<lambda>entry. level w \<ge> entryLevel entry) entries) [] 0 (spinners w) of
        (terminalEntries, sp) \<Rightarrow> (terminalEntries, w\<lparr>spinners := sp\<rparr>))"

subsection \<open>Rendering and the throttle\<close>

definition render :: "TerminalEntry list \<Rightarrow> bool \<Rightarrow> Writer \<Rightarrow> Writer" where
  "render terminalEntries didWrite w =
     (let output = splitLines (concat (map text terminalEntries));
          w1 = (if \<not> didWrite then writeOutput output w else w);
          w2 = w1\<lparr>prevOutput := output\<rparr>;
          entriesWithspinner = filter (\<lambda>e. spinnerCoords e \<noteq> None) terminalEntries
      in if length entriesWithspinner > 0 then startLoop entriesWithspinner w2 else stopLoop w2)"

text \<open>
  \<^verbatim>\<open>handleGraphChange\<close> at time \<open>now\<close> (\<^verbatim>\<open>Date.now()\<close>), for the entry \<open>log\<close> of the graph
  \<open>entries\<close>. \<^verbatim>\<open>this.lastInterceptAt && ...\<close> is falsy for \<^verbatim>\<open>null\<close> and for 0.
\<close>

definition throttleProcessing :: "int \<Rightarrow> Writer \<Rightarrow> bool" where
  "throttleProcessing now w =
     (case lastInterceptAt w of
        None \<Rightarrow> False
      | Some t \<Rightarrow> t \<noteq> 0 \<and> now - t < THROTTLE_MS)"

text \<open>What \<^verbatim>\<open>handleGraphChange\<close> does from \<^verbatim>\<open>this.fullRender(logger)\<close> on.\<close>

definition renderChange ::
  "Renderers \<Rightarrow> LogEntry \<Rightarrow> LogEntry list \<Rightarrow> bool \<Rightarrow> Writer \<Rightarrow> Writer" where
  "renderChange R log entries didWrite w =
     (case fullRender R entries w of
        (terminalEntries, w1) \<Rightarrow>
          (case find (\<lambda>e. key e = entryKey log) terminalEntries of
             None \<Rightarrow> w1
           | Some nextEntry \<Rightarrow> render terminalEntries didWrite w1))"

definition handleGraphChange ::
  "Renderers \<Rightarrow> int \<Rightarrow> LogEntry \<Rightarrow> LogEntry list \<Rightarrow> bool \<Rightarrow> Writer \<Rightarrow> Writer" where
  "handleGraphChange R now log entries didWrite w =
     (let w0 = w\<lparr>updatePending := False, logger := True\<rparr>
      in if fromStdStream log \<and> \<not> didWrite
         then (let throttle = throttleProcessing now w0;
                   w1 = w0\<lparr>lastInterceptAt := Some now\<rparr>
               in if throttle
                  then (stopLoop w1)
                         \<lparr>updatePending := True,
                          timeouts := timeouts w1 @ [(now + THROTTLE_MS, entryKey log)]\<rparr>
                  else renderChange R log entries didWrite w1)
         else renderChange R log entries didWrite w0)"

text \<open>
  The callback handed to \<^verbatim>\<open>setTimeout\<close>, run when the timeout fires, on the graph as it
  is then.
\<close>

definition timeoutCallback :: "Renderers \<Rightarrow> int \<Rightarrow> LogEntry \<Rightarrow> LogEntry list \<Rightarrow> Writer \<Rightarrow> Writer" where
  "timeoutCallback R now log entries w =
     (if updatePending w then handleGraphChange R now log entries True w else w)"

definition onGraphChange ::
  "Renderers \<Rightarrow> int \<Rightarrow> int \<Rightarrow> LogEntry \<Rightarrow> LogEntry list \<Rightarrow> Writer \<Rightarrow> Writer" where
  "onGraphChange R width now entry entries w =
     (let w1 = (if entryLevel entry = LogLevel_error
                then (let out = basicRender R entry
                      in if out \<noteq> [] then w\<lparr>errorMessages := errorMessages w @ [out]\<rparr> else w)
                else w);
          w2 = (if \<not> initialized w1 then init width w1 else w1)
      in handleGraphChange R now entry entries False w2)"

definition changeLevel :: "Renderers \<Rightarrow> nat \<Rightarrow> LogEntry list \<Rightarrow> Writer \<Rightarrow> Writer" where
  "changeLevel R lvl entries w =
     (let w1 = w\<lparr>level := lvl\<rparr>
      in if logger w1 \<and> initialized w1
         then (case fullRender R entries (setContent [] (w1\<lparr>prevOutput := []\<rparr>)) of
                 (terminalEntries, w2) \<Rightarrow> render terminalEntries False w2)
         else w1)"

definition cleanup :: "Writer \<Rightarrow> Writer" where
  "cleanup w =
     w\<lparr>calls := calls w @ [ScreenDestroy, CursorShow] @ map StdoutWrite (errorMessages w),
       errorMessages := []\<rparr>"

definition stop :: "Writer \<Rightarrow> Writer" where
  "stop w = stopLoop w"

section \<open>The buffered event stream\<close>

record StreamEvent =
  name :: string
  payload :: string

record LogEntryEvent =
  eventKey :: string
  parentKey :: "string option"
  revision :: nat
  eventMsg :: string

record BufferedEventStream =
  sessionId :: string
  platformUrl :: string
  clientAuthToken :: string
  bufferedEvents :: "StreamEvent list"
  bufferedLogEntries :: "LogEntryEvent list"

text \<open>
  The objects \<^verbatim>\<open>flushBuffered\<close> builds, \<^verbatim>\<open>{ sessionId, events }\<close> and
  \<^verbatim>\<open>{ sessionId, logEntries }\<close>, and what it does with the outside: the lines it logs
  on the console (an empty line, "would post n events", "would post n log entries") and the
  requests it posts (a URL and the object posted).
\<close>

datatype Payload =
    EventsPayload string "StreamEvent list"
  | LogEntriesPayload string "LogEntryEvent list"

datatype ConsoleLine = Blank | WouldPostEvents nat | WouldPostLogEntries nat

datatype Effect = ConsoleLog ConsoleLine | Post string Payload

record FlushResult =
  stream :: BufferedEventStream
  eventsToFlush :: "StreamEvent list"
  logEntriesToFlush :: "LogEntryEvent list"
  events :: "Payload option"
  logEntries :: "Payload option"
  effects :: "Effect list"

definition newBufferedEventStream :: "string \<Rightarrow> string \<Rightarrow> string \<Rightarrow> BufferedEventStream" where
  "newBufferedEventStream sid url token =
     \<lparr>sessionId = sid, platformUrl = url, clientAuthToken = token,
      bufferedEvents = [], bufferedLogEntries = []\<rparr>"

definition streamEvent :: "string \<Rightarrow> string \<Rightarrow> BufferedEventStream \<Rightarrow> BufferedEventStream" where
  "streamEvent n p s = s\<lparr>bufferedEvents := bufferedEvents s @ [\<lparr>name = n, payload = p\<rparr>]\<rparr>"

definition streamLogEntry :: "LogEntryEvent \<Rightarrow> BufferedEventStream \<Rightarrow> BufferedEventStream" where
  "streamLogEntry logEntry s = s\<lparr>bufferedLogEntries := bufferedLogEntries s @ [logEntry]\<rparr>"

text \<open>
  \<^verbatim>\<open>flushBuffered\<close>. \<^verbatim>\<open>xs.splice(0, n)\<close> takes the first \<open>n\<close> elements out of \<open>xs\<close> (all of
  them when there are fewer) and returns them. The two calls of \<^verbatim>\<open>axios.post\<close> are
  commented out in the source: the function posts nothing.
\<close>

definition flushBuffered :: "bool \<Rightarrow> BufferedEventStream \<Rightarrow> FlushResult" where
  "flushBuffered flushAll s =
     (let n = (if flushAll then length (bufferedEvents s) else MAX_BATCH_SIZE);
          evs = take n (bufferedEvents s);
          s1 = s\<lparr>bufferedEvents := drop n (bufferedEvents s)\<rparr>;
          logEntryFlushCount =
            (if flushAll then length (bufferedLogEntries s1) else MAX_BATCH_SIZE - length evs);
          les = take logEntryFlushCount (bufferedLogEntries s1);
          s2 = s1\<lparr>bufferedLogEntries := drop logEntryFlushCount (bufferedLogEntries s1)\<rparr>
      in \<lparr>stream = s2,
          eventsToFlush = evs,
          logEntriesToFlush = les,
          events = (if length evs > 0 then Some (EventsPayload (sessionId s) evs) else None),
          logEntries = (if length les > 0 then Some (LogEntriesPayload (sessionId s) les) else None),
          effects =
            (if length evs > 0
             then [ConsoleLog Blank, ConsoleLog (WouldPostEvents (length evs)), ConsoleLog Blank]
             else []) @
            (if length les > 0 then [ConsoleLog (WouldPostLogEntries (length les))] else [])\<rparr>)"

section \<open>Notions used in the statements\<close>

text \<open>
  The line numbers of a list of records start at \<open>n\<close> and advance, record by record, by
  the line count of the text minus one.
\<close>

fun numbered :: "nat \<Rightarrow> TerminalEntry list \<Rightarrow> bool" where
  "numbered n [] = True"
| "numbered n (r # rs) = (lineNumber r = n \<and> numbered (n + (lineCount (text r) - 1)) rs)"

text \<open>The requests among a list of effects, as (URL, object) pairs.\<close>

fun posts :: "Effect list \<Rightarrow> (string \<times> Payload) list" where
  "posts [] = []"
| "posts (Post url p # fx) = (url, p) # posts fx"
| "posts (ConsoleLog l # fx) = posts fx"

text \<open>
  The spinner loop is not an idle timer: when it runs, it runs on at least one entry, and
  every entry it runs on has spinner coordinates.
\<close>

definition loopHasSpinners :: "Writer \<Rightarrow> bool" where
  "loopHasSpinners w =
     (case intervalID w of
        None \<Rightarrow> True
      | Some entries \<Rightarrow> entries \<noteq> [] \<and> list_all (\<lambda>e. spinnerCoords e \<noteq> None) entries)"

section \<open>Concrete inputs\<close>

text \<open>
  Renderers for concrete runs: an entry renders as its message (followed by a newline
  unless it comes from a standard stream), nothing is padded, wrapped or styled, and the
  spinner has four ASCII frames.
\<close>

definition plainRenderers :: Renderers where
  "plainRenderers =
     \<lparr>leftPad = (\<lambda>e. []),
      renderMsg = msg,
      formatForTerminal = (\<lambda>e. if msg e = [] then [] else msg e @ [newline]),
      basicRender = (\<lambda>e. if msg e = [] then [] else msg e @ [newline]),
      wrapAnsi = (\<lambda>s width. s),
      spinnerStyle = (\<lambda>s. s),
      frames = [''-'', ''+'', ''|'', ''/'']\<rparr>"

text \<open>A writer showing the three lines a, b, c.\<close>

definition wABC :: Writer where
  "wABC =
     render [\<lparr>key = ''k'', text = ''a\<newline>b\<newline>c'', lineNumber = 0, spinnerCoords = None\<rparr>] False
       (init 80 (newWriter LogLevel_info))"

text \<open>A stream into which the events \<open>ev 0\<close>, ..., \<open>ev (n - 1)\<close> were enqueued, in this order.\<close>

definition enqueued :: "(nat \<Rightarrow> string \<times> string) \<Rightarrow> nat \<Rightarrow> BufferedEventStream" where
  "enqueued ev n =
     foldl (\<lambda>s i. streamEvent (fst (ev i)) (snd (ev i)) s)
       (newBufferedEventStream ''session'' ''url'' ''token'') [0..<n]"

text \<open>One event in the buffer, and the flush on the timer.\<close>

definition oneEvent :: BufferedEventStream where
  "oneEvent = streamEvent ''taskComplete'' ''{}'' (newBufferedEventStream ''session'' ''url'' ''token'')"

text \<open>An entry of a standard stream, at the info level, with the message \<open>m\<close>.\<close>

definition streamEntry :: "string \<Rightarrow> string \<Rightarrow> LogEntry" where
  "streamEntry k m =
     \<lparr>entryKey = k, entryLevel = LogLevel_info, status = Done, fromStdStream = True, msg = m\<rparr>"

text \<open>An entry of the logger itself, at the info level.\<close>

definition logEntry :: "string \<Rightarrow> EntryStatus \<Rightarrow> string \<Rightarrow> LogEntry" where
  "logEntry k st m =
     \<lparr>entryKey = k, entryLevel = LogLevel_info, status = st, fromStdStream = False, msg = m\<rparr>"

text \<open>The writer after a first chunk of a stream, "one", came in at time 1000.\<close>

definition wOne :: Writer where
  "wOne =
     onGraphChange plainRenderers 80 1000 (streamEntry ''s'' ''one'') [streamEntry ''s'' ''one'']
       (newWriter LogLevel_info)"

text \<open>The second chunk makes the message "two", 100 ms later.\<close>

definition wTwo :: Writer where
  "wTwo =
     onGraphChange plainRenderers 80 1100 (streamEntry ''s'' ''two'') [streamEntry ''s'' ''two''] wOne"

text \<open>
  The timeout set at time 1100 fires at time 1700 on the graph with the message "two",
  and a third notification of the stream, with the graph as it is, comes at time 5000.
\<close>

definition wCatchUp :: Writer where
  "wCatchUp =
     timeoutCallback plainRenderers 1700 (streamEntry ''s'' ''two'') [streamEntry ''s'' ''two''] wTwo"

definition wLater :: Writer where
  "wLater =
     onGraphChange plainRenderers 80 5000 (streamEntry ''s'' ''two'') [streamEntry ''s'' ''two'']
       wCatchUp"


text \<open>
  A task of the logger that is running: the writer after its entry came in, and after a
  second notification for the same entry, the graph being as it was.
\<close>

definition wSpin :: Writer where
  "wSpin =
     onGraphChange plainRenderers 80 1000 (logEntry ''a'' Active ''building'')
       [logEntry ''a'' Active ''building''] (newWriter LogLevel_info)"

definition wSpinAgain :: Writer where
  "wSpinAgain =
     onGraphChange plainRenderers 80 2000 (logEntry ''a'' Active ''building'')
       [logEntry ''a'' Active ''building''] wSpin"


text \<open>
  An error entry of a running task: the writer after it came in, after \<open>stop\<close>, and after
  a notification that comes after the stop.
\<close>

definition errorEntry :: "string \<Rightarrow> EntryStatus \<Rightarrow> string \<Rightarrow> LogEntry" where
  "errorEntry k st m =
     \<lparr>entryKey = k, entryLevel = LogLevel_error, status = st, fromStdStream = False, msg = m\<rparr>"

definition wErr :: Writer where
  "wErr =
     onGraphChange plainRenderers 80 1000 (errorEntry ''e'' Active ''boom'')
       [errorEntry ''e'' Active ''boom''] (newWriter LogLevel_info)"

definition wAfterStop :: Writer where
  "wAfterStop =
     onGraphChange plainRenderers 80 2000 (logEntry ''b'' Done ''next'')
       [errorEntry ''e'' Active ''boom'', logEntry ''b'' Done ''next''] (stop wErr)"




text \<open>Two chunks of two streams, neither with a newline; two entries of the logger.\<close>

definition twoChunks :: "LogEntry list" where
  "twoChunks = [streamEntry ''s'' ''one'', streamEntry ''t'' ''two'']"

definition twoEntries :: "LogEntry list" where
  "twoEntries = [logEntry ''a'' Done ''one\<newline>two'', logEntry ''b'' Done ''three'']"

text \<open>
  A longer burst: "three" at time 1200, the timeout of time 1700 firing, "four" at time
  1750, and the timeout of time 1800 firing.
\<close>

definition wThree :: Writer where
  "wThree =
     onGraphChange plainRenderers 80 1200 (streamEntry ''s'' ''three'') [streamEntry ''s'' ''three'']
       wTwo"

definition wFirstCatchUp :: Writer where
  "wFirstCatchUp =
     timeoutCallback plainRenderers 1700 (streamEntry ''s'' ''two'') [streamEntry ''s'' ''three'']
       wThree"

definition wFour :: Writer where
  "wFour =
     onGraphChange plainRenderers 80 1750 (streamEntry ''s'' ''four'') [streamEntry ''s'' ''four'']
       wFirstCatchUp"

definition wSecondCatchUp :: Writer where
  "wSecondCatchUp =
     timeoutCallback plainRenderers 1800 (streamEntry ''s'' ''three'') [streamEntry ''s'' ''four'']
       wFour"

section \<open>Properties of the diff writer\<close>

lemma setLines_append: "setLines (xs @ ys) = setLines xs @ setLines ys"
  by (induction xs rule: setLines.induct) simp_all

lemma writeLoop_prevOutput: "prevOutput (snd (writeLoop out y ch w)) = prevOutput w"
  by (induction out y ch w rule: writeLoop.induct) (simp_all add: setLine_def)

lemma writeLoop_scrolling: "scrolling (snd (writeLoop out y ch w)) = scrolling w"
  by (induction out y ch w rule: writeLoop.induct) (simp_all add: setLine_def)

lemma writeLoop_calls_prefix:
  "\<exists>cs. calls (snd (writeLoop out y ch w)) = calls w @ cs"
proof (induction out y ch w rule: writeLoop.induct)
  case (1 y changed w)
  show ?case by simp
next
  case (2 line rest y changed w)
  show ?case
  proof (cases "length (prevOutput w) < y \<or> at (prevOutput w) y \<noteq> Some line")
    case True
    with 2 obtain cs where
      "calls (snd (writeLoop rest (Suc y) True (setLine y line w))) = calls (setLine y line w) @ cs"
      by blast
    with True show ?thesis by (simp add: setLine_def)
  next
    case False
    with 2 show ?thesis by simp
  qed
qed

text \<open>The rows the loop writes: those of the rest of the output that differ.\<close>

lemma writeLoop_setLines:
  "setLines (calls (snd (writeLoop out y ch w))) =
     setLines (calls w) @
     map (\<lambda>i. (y + i, out ! i))
       (filter (\<lambda>i. length (prevOutput w) \<le> y + i \<or> prevOutput w ! (y + i) \<noteq> out ! i)
          [0..<length out])"
proof (induction out y ch w rule: writeLoop.induct)
  case (1 y changed w)
  show ?case by simp
next
  case (2 line rest y changed w)
  have up: "[0..<Suc (length rest)] = 0 # map Suc [0..<length rest]"
    by (simp add: upt_conv_Cons map_Suc_upt del: upt_Suc)
  show ?case
  proof (cases "length (prevOutput w) < y \<or> at (prevOutput w) y \<noteq> Some line")
    case True
    then have d: "length (prevOutput w) \<le> y \<or> prevOutput w ! y \<noteq> line"
      by (auto simp: at_def split: if_splits)
    from True 2 d show ?thesis
      by (simp add: up filter_map o_def setLine_def setLines_append del: upt_Suc)
  next
    case False
    then have d: "\<not> (length (prevOutput w) \<le> y \<or> prevOutput w ! y \<noteq> line)"
      by (auto simp: at_def split: if_splits)
    from False 2 d show ?thesis
      by (simp add: up filter_map o_def del: upt_Suc)
  qed
qed

lemma writeLoop_changed:
  "fst (writeLoop out y ch w) \<longleftrightarrow>
     ch \<or> (\<exists>i < length out. length (prevOutput w) \<le> y + i \<or> prevOutput w ! (y + i) \<noteq> out ! i)"
proof (induction out y ch w rule: writeLoop.induct)
  case (1 y changed w)
  show ?case by simp
next
  case (2 line rest y changed w)
  have ex: "\<And>P. (\<exists>i < Suc (length rest). P i) \<longleftrightarrow> P 0 \<or> (\<exists>i < length rest. P (Suc i))"
    by (auto simp: less_Suc_eq_0_disj)
  show ?case
  proof (cases "length (prevOutput w) < y \<or> at (prevOutput w) y \<noteq> Some line")
    case True
    then have d: "length (prevOutput w) \<le> y \<or> prevOutput w ! y \<noteq> line"
      by (auto simp: at_def split: if_splits)
    from True 2 d show ?thesis
      by (simp add: ex)
  next
    case False
    then have d: "\<not> (length (prevOutput w) \<le> y \<or> prevOutput w ! y \<noteq> line)"
      by (auto simp: at_def split: if_splits)
    from False 2 d show ?thesis
      by (simp add: ex setLine_def)
  qed
qed

lemma write_setLines:
  "setLines (calls (writeOutput out w)) =
     setLines (calls w) @
     map (\<lambda>i. (i, out ! i)) (filter (rowDiffers (prevOutput w) out) [0..<length out])"
proof -
  obtain ch w1 where r: "writeLoop out 0 False w = (ch, w1)"
    by (cases "writeLoop out 0 False w")
  have "setLines (calls w1) =
     setLines (calls w) @
     map (\<lambda>i. (i, out ! i)) (filter (rowDiffers (prevOutput w) out) [0..<length out])"
    using writeLoop_setLines [of out 0 False w] r by (simp add: rowDiffers_def [abs_def])
  then show ?thesis
    by (simp add: writeOutput_def r screenRender_def setScrollPerc_def setLines_append)
qed

lemma write_calls_prefix: "\<exists>cs. calls (writeOutput out w) = calls w @ cs"
proof -
  obtain ch w1 where r: "writeLoop out 0 False w = (ch, w1)"
    by (cases "writeLoop out 0 False w")
  from writeLoop_calls_prefix [of out 0 False w] r
  obtain cs where "calls w1 = calls w @ cs" by auto
  then show ?thesis
    by (simp add: writeOutput_def r screenRender_def setScrollPerc_def)
qed

lemma newCalls_write:
  "setLines (newCalls w (writeOutput out w)) =
     map (\<lambda>i. (i, out ! i)) (filter (rowDiffers (prevOutput w) out) [0..<length out])"
proof -
  obtain cs where cs: "calls (writeOutput out w) = calls w @ cs"
    using write_calls_prefix by blast
  have "setLines (calls (writeOutput out w)) = setLines (calls w) @ setLines cs"
    by (simp add: cs setLines_append)
  with write_setLines [of out w] show ?thesis
    by (simp add: newCalls_def cs)
qed
section \<open>Evaluating concrete runs\<close>

lemmas writer_defs =
  render_def stopLoop_def startLoop_def Let_def writeOutput_def init_def newWriter_def
  at_def setLine_def screenRender_def setScrollPerc_def setContent_def splitLines_def
  newline_def newCalls_def LogLevel_info_def LogLevel_error_def

lemmas run_defs =
  writer_defs onGraphChange_def handleGraphChange_def renderChange_def fullRender_def
  renderEntry_def tickSpinner_def throttleProcessing_def timeoutCallback_def changeLevel_def
  cleanup_def stop_def lineCount_def THROTTLE_MS_def plainRenderers_def streamEntry_def
  logEntry_def errorEntry_def

lemma wOne_eval:
  "wOne =
     \<lparr>level = 2, spinners = Map.empty, intervalID = None, lastInterceptAt = Some 1000,
      updatePending = False, initialized = True, errorMessages = [], prevOutput = [''one''],
      scrolling = False, logger = True, timeouts = [],
      main = [0 \<mapsto> ''one''], mainWidth = 80,
      calls = [ScreenRender, SetLine 0 ''one'', SetScrollPerc 100, ScreenRender]\<rparr>"
  by (simp add: wOne_def run_defs)

lemma wTwo_eval:
  "wTwo =
     \<lparr>level = 2, spinners = Map.empty, intervalID = None, lastInterceptAt = Some 1100,
      updatePending = True, initialized = True, errorMessages = [], prevOutput = [''one''],
      scrolling = False, logger = True, timeouts = [(1700, ''s'')],
      main = [0 \<mapsto> ''one''], mainWidth = 80,
      calls = [ScreenRender, SetLine 0 ''one'', SetScrollPerc 100, ScreenRender]\<rparr>"
  by (simp add: wTwo_def wOne_eval run_defs)

lemma wCatchUp_eval:
  "wCatchUp =
     \<lparr>level = 2, spinners = Map.empty, intervalID = None, lastInterceptAt = Some 1100,
      updatePending = False, initialized = True, errorMessages = [], prevOutput = [''two''],
      scrolling = False, logger = True, timeouts = [(1700, ''s'')],
      main = [0 \<mapsto> ''one''], mainWidth = 80,
      calls = [ScreenRender, SetLine 0 ''one'', SetScrollPerc 100, ScreenRender]\<rparr>"
  by (simp add: wCatchUp_def wTwo_eval run_defs)

lemma wLater_eval:
  "wLater =
     \<lparr>level = 2, spinners = Map.empty, intervalID = None, lastInterceptAt = Some 5000,
      updatePending = False, initialized = True, errorMessages = [], prevOutput = [''two''],
      scrolling = False, logger = True, timeouts = [(1700, ''s'')],
      main = [0 \<mapsto> ''one''], mainWidth = 80,
      calls = [ScreenRender, SetLine 0 ''one'', SetScrollPerc 100, ScreenRender]\<rparr>"
  by (simp add: wLater_def wCatchUp_eval run_defs)

lemma wABC_prevOutput: "prevOutput wABC = [''a'', ''b'', ''c'']"
  by (simp add: wABC_def render_def stopLoop_def Let_def splitLines_def newline_def)

lemma wABC_main: "main wABC = [0 \<mapsto> ''a'', 1 \<mapsto> ''b'', 2 \<mapsto> ''c'']"
  by (simp add: wABC_def render_def stopLoop_def Let_def writeOutput_def init_def newWriter_def
      at_def setLine_def screenRender_def setScrollPerc_def splitLines_def newline_def numeral_2_eq_2)

section \<open>What each operation leaves unchanged\<close>

lemma writeLoop_fields:
  "level (snd (writeLoop out y ch w)) = level w
   \<and> spinners (snd (writeLoop out y ch w)) = spinners w
   \<and> intervalID (snd (writeLoop out y ch w)) = intervalID w
   \<and> lastInterceptAt (snd (writeLoop out y ch w)) = lastInterceptAt w
   \<and> updatePending (snd (writeLoop out y ch w)) = updatePending w
   \<and> initialized (snd (writeLoop out y ch w)) = initialized w
   \<and> errorMessages (snd (writeLoop out y ch w)) = errorMessages w
   \<and> logger (snd (writeLoop out y ch w)) = logger w
   \<and> mainWidth (snd (writeLoop out y ch w)) = mainWidth w
   \<and> timeouts (snd (writeLoop out y ch w)) = timeouts w"
  by (induction out y ch w rule: writeLoop.induct) (simp_all add: setLine_def)

lemma writeOutput_fields:
  "level (writeOutput out w) = level w
   \<and> spinners (writeOutput out w) = spinners w
   \<and> intervalID (writeOutput out w) = intervalID w
   \<and> lastInterceptAt (writeOutput out w) = lastInterceptAt w
   \<and> updatePending (writeOutput out w) = updatePending w
   \<and> initialized (writeOutput out w) = initialized w
   \<and> errorMessages (writeOutput out w) = errorMessages w
   \<and> prevOutput (writeOutput out w) = prevOutput w
   \<and> scrolling (writeOutput out w) = scrolling w
   \<and> logger (writeOutput out w) = logger w
   \<and> mainWidth (writeOutput out w) = mainWidth w
   \<and> timeouts (writeOutput out w) = timeouts w"
proof -
  obtain ch w1 where r: "writeLoop out 0 False w = (ch, w1)"
    by (cases "writeLoop out 0 False w")
  from writeLoop_fields [of out 0 False w] writeLoop_prevOutput [of out 0 False w]
    writeLoop_scrolling [of out 0 False w] r
  show ?thesis
    by (simp add: writeOutput_def screenRender_def setScrollPerc_def)
qed

lemma render_fields:
  "level (render ents dw w) = level w
   \<and> spinners (render ents dw w) = spinners w
   \<and> lastInterceptAt (render ents dw w) = lastInterceptAt w
   \<and> updatePending (render ents dw w) = updatePending w
   \<and> initialized (render ents dw w) = initialized w
   \<and> errorMessages (render ents dw w) = errorMessages w
   \<and> scrolling (render ents dw w) = scrolling w
   \<and> logger (render ents dw w) = logger w
   \<and> mainWidth (render ents dw w) = mainWidth w
   \<and> timeouts (render ents dw w) = timeouts w"
  by (simp add: render_def Let_def startLoop_def stopLoop_def writeOutput_fields)

lemma render_prevOutput:
  "prevOutput (render ents dw w) = splitLines (concat (map text ents))"
  by (simp add: render_def Let_def startLoop_def stopLoop_def)

lemma render_intervalID:
  "intervalID (render ents dw w) =
     (if filter (\<lambda>e. spinnerCoords e \<noteq> None) ents = [] then None
      else Some (filter (\<lambda>e. spinnerCoords e \<noteq> None) ents))"
  by (simp add: render_def Let_def startLoop_def stopLoop_def writeOutput_fields)

lemma fullRender_fields:
  "level (snd (fullRender R es w)) = level w
   \<and> intervalID (snd (fullRender R es w)) = intervalID w
   \<and> lastInterceptAt (snd (fullRender R es w)) = lastInterceptAt w
   \<and> updatePending (snd (fullRender R es w)) = updatePending w
   \<and> initialized (snd (fullRender R es w)) = initialized w
   \<and> errorMessages (snd (fullRender R es w)) = errorMessages w
   \<and> prevOutput (snd (fullRender R es w)) = prevOutput w
   \<and> scrolling (snd (fullRender R es w)) = scrolling w
   \<and> logger (snd (fullRender R es w)) = logger w
   \<and> main (snd (fullRender R es w)) = main w
   \<and> mainWidth (snd (fullRender R es w)) = mainWidth w
   \<and> calls (snd (fullRender R es w)) = calls w
   \<and> timeouts (snd (fullRender R es w)) = timeouts w"
  by (simp add: fullRender_def split: prod.split)

lemma renderChange_fields:
  "level (renderChange R log es dw w) = level w
   \<and> lastInterceptAt (renderChange R log es dw w) = lastInterceptAt w
   \<and> updatePending (renderChange R log es dw w) = updatePending w
   \<and> initialized (renderChange R log es dw w) = initialized w
   \<and> errorMessages (renderChange R log es dw w) = errorMessages w
   \<and> scrolling (renderChange R log es dw w) = scrolling w
   \<and> logger (renderChange R log es dw w) = logger w
   \<and> mainWidth (renderChange R log es dw w) = mainWidth w
   \<and> timeouts (renderChange R log es dw w) = timeouts w"
proof -
  obtain ents w1 where f: "fullRender R es w = (ents, w1)"
    by (cases "fullRender R es w")
  from fullRender_fields [of R es w] f show ?thesis
    by (simp add: renderChange_def render_fields split: option.split)
qed

section \<open>The deferred catch-up render (C1)\<close>

text \<open>
  C1. The last notification of a burst should end in a render that writes the canvas. A
  stream writes "one" at time 1000, which is rendered, and "two" at time 1100, which is
  throttled: the update is pending and a timeout is set for time 1700. When it fires, the
  catch-up call takes the output "two" as the previous output without a single call on
  the canvas, whose row 0 still reads "one"; the next notification of the stream, long
  after the burst, finds nothing to write, and the row reads "one" still.
\<close>

theorem catch_up_does_not_write:
  "updatePending wTwo \<and> timeouts wTwo = [(1700, ''s'')]
   \<and> prevOutput wCatchUp = [''two''] \<and> newCalls wTwo wCatchUp = []
   \<and> main wCatchUp 0 = Some ''one''
   \<and> newCalls wCatchUp wLater = [] \<and> main wLater 0 = Some ''one''"
  by (simp add: wTwo_eval wCatchUp_eval wLater_eval newCalls_def)

text \<open>
  Every throttled notification sets a timeout of its own, and all of them look at the one
  flag: in a longer burst, whose notifications are less than 600 ms apart, the timeouts of
  times 1700 and 1800 both find the update pending and both run a catch-up call, 100 ms
  apart; neither writes the canvas.
\<close>

lemma two_catch_ups_in_one_window:
  "timeouts wThree = [(1700, ''s''), (1800, ''s'')]
   \<and> updatePending wThree \<and> prevOutput wThree = [''one'']
   \<and> \<not> updatePending wFirstCatchUp \<and> prevOutput wFirstCatchUp = [''three'']
   \<and> updatePending wFour \<and> timeouts wFour = [(1700, ''s''), (1800, ''s''), (2350, ''s'')]
   \<and> \<not> updatePending wSecondCatchUp \<and> prevOutput wSecondCatchUp = [''four'']
   \<and> newCalls wTwo wSecondCatchUp = []"
  by (simp add: wSecondCatchUp_def wFour_def wFirstCatchUp_def wThree_def wTwo_eval run_defs)

text \<open>
  What the throttle does keep: a notification of a stream that comes less than 600 ms
  after the one before it makes no call on the canvas and leaves the previous output as
  it is; the update is pending.
\<close>

lemma throttled_writes_nothing:
  assumes "fromStdStream log" and "lastInterceptAt w = Some t" and "t \<noteq> 0"
    and "now - t < THROTTLE_MS"
  shows "newCalls w (handleGraphChange R now log entries False w) = []
    \<and> updatePending (handleGraphChange R now log entries False w)
    \<and> prevOutput (handleGraphChange R now log entries False w) = prevOutput w"
  using assms
  by (simp add: handleGraphChange_def Let_def throttleProcessing_def stopLoop_def newCalls_def)

section \<open>Line numbers (C2)\<close>

lemma length_split: "length (split c s) = Suc (count_list s c)"
  by (induction s) (auto split: list.split)

lemma lineCount_newlines: "lineCount t - Suc 0 = count_list t newline"
  by (simp add: lineCount_def splitLines_def length_split)

lemma reduceEntries_numbered:
  "\<exists>recs. fst (reduceEntries R wd es acc cur sp) = acc @ recs \<and> numbered cur recs"
proof (induction es arbitrary: acc cur sp)
  case Nil
  show ?case by simp
next
  case (Cons e es)
  obtain t c sp1 where r: "renderEntry R wd e cur sp = (t, c, sp1)"
    by (cases "renderEntry R wd e cur sp")
  show ?case
  proof (cases "t = []")
    case True
    from Cons [of acc cur sp1] obtain recs where
      "fst (reduceEntries R wd es acc cur sp1) = acc @ recs" "numbered cur recs"
      by blast
    with r True show ?thesis
      by (simp add: lineCount_def splitLines_def)
  next
    case False
    let ?r = "\<lparr>key = entryKey e, text = t, lineNumber = cur, spinnerCoords = c\<rparr>"
    from Cons [of "acc @ [?r]" "cur + (lineCount t - 1)" sp1] obtain recs where
      "fst (reduceEntries R wd es (acc @ [?r]) (cur + (lineCount t - 1)) sp1) = (acc @ [?r]) @ recs"
      "numbered (cur + (lineCount t - 1)) recs"
      by blast
    with r False have
      "fst (reduceEntries R wd (e # es) acc cur sp) = acc @ (?r # recs) \<and> numbered cur (?r # recs)"
      by simp
    then show ?thesis by blast
  qed
qed

lemma numbered_nth:
  "numbered n rs \<Longrightarrow> i < length rs \<Longrightarrow>
     lineNumber (rs ! i) = n + sum_list (map (\<lambda>r. lineCount (text r) - 1) (take i rs))"
proof (induction rs arbitrary: n i)
  case Nil
  then show ?case by simp
next
  case (Cons r rs)
  show ?case
  proof (cases i)
    case 0
    with Cons.prems show ?thesis by simp
  next
    case (Suc j)
    with Cons.prems have "numbered (n + (lineCount (text r) - 1)) rs" "j < length rs"
      by simp_all
    from Cons.IH [OF this] Suc show ?thesis by simp
  qed
qed

lemma numbered_sorted:
  "numbered n rs \<Longrightarrow> sorted (map lineNumber rs) \<and> (\<forall>r \<in> set rs. n \<le> lineNumber r)"
proof (induction rs arbitrary: n)
  case Nil
  then show ?case by simp
next
  case (Cons r rs)
  then have "numbered (n + (lineCount (text r) - 1)) rs" and n: "lineNumber r = n"
    by simp_all
  from Cons.IH [OF this(1)] n show ?case by auto
qed

lemma fullRender_numbered: "numbered 0 (fst (fullRender R entries w))"
  using reduceEntries_numbered [of R "mainWidth w"
      "filter (\<lambda>entry. level w \<ge> entryLevel entry) entries" "[]" 0 "spinners w"]
  by (auto simp: fullRender_def case_prod_beta)

lemma twoEntries_eval:
  "fst (fullRender plainRenderers twoEntries (init 80 (newWriter LogLevel_info))) =
     [\<lparr>key = ''a'', text = ''one\<newline>two\<newline>'', lineNumber = 0, spinnerCoords = None\<rparr>,
      \<lparr>key = ''b'', text = ''three\<newline>'', lineNumber = 2, spinnerCoords = None\<rparr>]"
  by (simp add: twoEntries_def run_defs)

text \<open>
  C2, as stated: the line number of a record is the sum of the line counts of the records
  before it. Two chunks of standard streams, "one" and "two", have one line each, and both
  records have line number 0: the second is not at line 1.
\<close>

theorem lineNumber_not_sum_of_line_counts:
  "map text (fst (fullRender plainRenderers twoChunks (init 80 (newWriter LogLevel_info)))) =
     [''one'', ''two'']
   \<and> map lineNumber (fst (fullRender plainRenderers twoChunks (init 80 (newWriter LogLevel_info)))) =
     [0, 0]
   \<and> lineCount ''one'' = 1
   \<and> lineNumber (fst (fullRender plainRenderers twoChunks (init 80 (newWriter LogLevel_info))) ! 1) \<noteq>
     sum_list (map (\<lambda>r. lineCount (text r))
       (take 1 (fst (fullRender plainRenderers twoChunks (init 80 (newWriter LogLevel_info))))))"
  by (simp add: twoChunks_def run_defs)

text \<open>
  C2, amended: the line number of the i-th record is the sum, over the records before it,
  of the line count of the text minus one, which is the number of newline characters in
  the text; the line numbers never decrease along the snapshot.
\<close>

theorem fullRender_lineNumbers:
  "(\<forall>i < length (fst (fullRender R entries w)).
      lineNumber (fst (fullRender R entries w) ! i) =
        sum_list (map (\<lambda>r. lineCount (text r) - 1) (take i (fst (fullRender R entries w)))))
   \<and> (\<forall>r \<in> set (fst (fullRender R entries w)). lineCount (text r) - 1 = count_list (text r) newline)
   \<and> sorted (map lineNumber (fst (fullRender R entries w)))"
  using numbered_nth [OF fullRender_numbered [of R entries w]]
    numbered_sorted [OF fullRender_numbered [of R entries w]]
  by (simp add: lineCount_newlines)

theorem fullRender_lineNumbers_witness:
  "lineNumber (fst (fullRender plainRenderers twoEntries (init 80 (newWriter LogLevel_info))) ! 1) =
     sum_list (map (\<lambda>r. lineCount (text r) - 1)
       (take 1 (fst (fullRender plainRenderers twoEntries (init 80 (newWriter LogLevel_info))))))
   \<and> map lineNumber (fst (fullRender plainRenderers twoEntries (init 80 (newWriter LogLevel_info)))) =
       [0, 2]
   \<and> lineCount ''one\<newline>two\<newline>'' - 1 = 2"
proof -
  have l: "1 < length (fst (fullRender plainRenderers twoEntries (init 80 (newWriter LogLevel_info))))"
    by (simp add: twoEntries_eval)
  have c: "lineCount ''one\<newline>two\<newline>'' - 1 = 2"
    by (simp add: lineCount_def splitLines_def newline_def)
  from fullRender_lineNumbers [of plainRenderers twoEntries "init 80 (newWriter LogLevel_info)"] l c
  show ?thesis
    by (simp add: twoEntries_eval)
qed

text \<open>
  So the line number of a record is the row of the flattened output at which its text
  begins: the output that \<open>render\<close> splits into rows is the concatenation of the texts.
\<close>

lemma count_list_concat: "count_list (concat xs) c = sum_list (map (\<lambda>x. count_list x c) xs)"
  by (induction xs) simp_all

lemma lineNumber_is_row:
  assumes "i < length (fst (fullRender R entries w))"
  shows "lineNumber (fst (fullRender R entries w) ! i) =
           length (splitLines (concat (map text (take i (fst (fullRender R entries w)))))) - 1"
proof -
  have "lineNumber (fst (fullRender R entries w) ! i) =
          sum_list (map (\<lambda>r. lineCount (text r) - 1) (take i (fst (fullRender R entries w))))"
    using numbered_nth [OF fullRender_numbered assms] by simp
  also have "\<dots> = count_list (concat (map text (take i (fst (fullRender R entries w))))) newline"
    by (simp add: lineCount_newlines count_list_concat o_def)
  finally show ?thesis by (simp add: splitLines_def length_split)
qed

section \<open>The batch cap (C3)\<close>

lemma foldl_streamEvent:
  "bufferedEvents (foldl (\<lambda>s i. streamEvent (fst (ev i)) (snd (ev i)) s) s0 xs) =
     bufferedEvents s0 @ map (\<lambda>i. \<lparr>name = fst (ev i), payload = snd (ev i)\<rparr>) xs
   \<and> bufferedLogEntries (foldl (\<lambda>s i. streamEvent (fst (ev i)) (snd (ev i)) s) s0 xs) =
     bufferedLogEntries s0"
  by (induction xs arbitrary: s0) (simp_all add: streamEvent_def)

lemma enqueued_events: "length (bufferedEvents (enqueued ev n)) = n"
  by (simp add: enqueued_def foldl_streamEvent newBufferedEventStream_def)

lemma enqueued_logEntries: "bufferedLogEntries (enqueued ev n) = []"
  by (simp add: enqueued_def foldl_streamEvent newBufferedEventStream_def)

lemma flush_eventsToFlush:
  "eventsToFlush (flushBuffered False s) = take MAX_BATCH_SIZE (bufferedEvents s)"
  by (simp add: flushBuffered_def Let_def)

lemma flush_logEntriesToFlush:
  "logEntriesToFlush (flushBuffered False s) =
     take (MAX_BATCH_SIZE - length (eventsToFlush (flushBuffered False s))) (bufferedLogEntries s)"
  by (simp add: flushBuffered_def Let_def)

lemma flush_rest_events:
  "bufferedEvents (stream (flushBuffered False s)) = drop MAX_BATCH_SIZE (bufferedEvents s)"
  by (simp add: flushBuffered_def Let_def)

lemma flush_rest_logEntries:
  "bufferedLogEntries (stream (flushBuffered False s)) =
     drop (MAX_BATCH_SIZE - length (eventsToFlush (flushBuffered False s))) (bufferedLogEntries s)"
  by (simp add: flushBuffered_def Let_def)

lemma flush_cap:
  "length (eventsToFlush (flushBuffered False s)) + length (logEntriesToFlush (flushBuffered False s))
     \<le> MAX_BATCH_SIZE"
  by (simp add: flushBuffered_def Let_def)

lemma flush_fifo:
  "eventsToFlush (flushBuffered b s) @ bufferedEvents (stream (flushBuffered b s)) = bufferedEvents s
   \<and> logEntriesToFlush (flushBuffered b s) @ bufferedLogEntries (stream (flushBuffered b s)) =
       bufferedLogEntries s"
  by (simp add: flushBuffered_def Let_def)

lemma flush_all:
  "eventsToFlush (flushBuffered True s) = bufferedEvents s
   \<and> logEntriesToFlush (flushBuffered True s) = bufferedLogEntries s
   \<and> bufferedEvents (stream (flushBuffered True s)) = []
   \<and> bufferedLogEntries (stream (flushBuffered True s)) = []"
  by (simp add: flushBuffered_def Let_def)

lemma flush_250:
  "length (eventsToFlush (flushBuffered False (enqueued ev 250))) = 200
   \<and> logEntriesToFlush (flushBuffered False (enqueued ev 250)) = []
   \<and> length (eventsToFlush (flushBuffered False (stream (flushBuffered False (enqueued ev 250))))) = 50
   \<and> logEntriesToFlush (flushBuffered False (stream (flushBuffered False (enqueued ev 250)))) = []
   \<and> bufferedEvents (stream (flushBuffered False (stream (flushBuffered False (enqueued ev 250))))) = []"
  by (simp add: flush_eventsToFlush flush_logEntriesToFlush flush_rest_events flush_rest_logEntries
      enqueued_events enqueued_logEntries MAX_BATCH_SIZE_def)

text \<open>
  C3. \<open>flush(false)\<close> removes at most 200 records: the first 200 structured events (all
  of them when there are fewer), then log records up to the rest of the cap, each queue
  from its front, the others staying in the queue in their order. After 250 structured
  events were enqueued, one \<open>flush(false)\<close> removes exactly 200 of them and a second one
  the other 50. \<open>flush(true)\<close> removes everything from both queues.
\<close>

theorem flushBuffered_batch_cap:
  "eventsToFlush (flushBuffered False s) = take MAX_BATCH_SIZE (bufferedEvents s)
   \<and> logEntriesToFlush (flushBuffered False s) =
       take (MAX_BATCH_SIZE - length (eventsToFlush (flushBuffered False s))) (bufferedLogEntries s)
   \<and> length (eventsToFlush (flushBuffered False s)) + length (logEntriesToFlush (flushBuffered False s))
       \<le> 200
   \<and> eventsToFlush (flushBuffered False s) @ bufferedEvents (stream (flushBuffered False s)) =
       bufferedEvents s
   \<and> logEntriesToFlush (flushBuffered False s) @ bufferedLogEntries (stream (flushBuffered False s)) =
       bufferedLogEntries s
   \<and> length (eventsToFlush (flushBuffered False (enqueued ev 250))) = 200
   \<and> logEntriesToFlush (flushBuffered False (enqueued ev 250)) = []
   \<and> length (eventsToFlush (flushBuffered False (stream (flushBuffered False (enqueued ev 250))))) = 50
   \<and> bufferedEvents (stream (flushBuffered False (stream (flushBuffered False (enqueued ev 250))))) = []
   \<and> eventsToFlush (flushBuffered True s) = bufferedEvents s
   \<and> logEntriesToFlush (flushBuffered True s) = bufferedLogEntries s
   \<and> bufferedEvents (stream (flushBuffered True s)) = []
   \<and> bufferedLogEntries (stream (flushBuffered True s)) = []"
  using flush_eventsToFlush [of s] flush_logEntriesToFlush [of s] flush_cap [of s]
    flush_fifo [of False s] flush_250 [of ev] flush_all [of s]
  by (simp add: MAX_BATCH_SIZE_def)

section \<open>Diff minimality (C4)\<close>




section \<open>Rendering a graph twice (C5)\<close>

lemma renderEntry_not_active:
  "status e \<noteq> Active \<Longrightarrow>
     renderEntry R wd e cur sp =
       (wrapAnsi R (if fromStdStream e then renderMsg R e else formatForTerminal R e) (wd - 2),
        None, sp(entryKey e := None))"
  by (simp add: renderEntry_def Let_def)

lemma reduceEntries_no_spinner:
  "\<forall>e \<in> set es. status e \<noteq> Active \<Longrightarrow>
     fst (reduceEntries R wd es acc cur sp) = fst (reduceEntries R wd es acc cur sp')"
proof (induction es arbitrary: acc cur sp sp')
  case Nil
  show ?case by simp
next
  case (Cons e es)
  then have na: "status e \<noteq> Active" and rest: "\<forall>e \<in> set es. status e \<noteq> Active"
    by simp_all
  show ?case
    using Cons.IH [OF rest] by (simp add: renderEntry_not_active [OF na])
qed

lemma fullRender_no_spinner:
  assumes "\<forall>e \<in> set entries. entryLevel e \<le> level w \<longrightarrow> status e \<noteq> Active"
    and "level w' = level w" and "mainWidth w' = mainWidth w"
  shows "fst (fullRender R entries w') = fst (fullRender R entries w)"
proof -
  from assms(1) have "\<forall>e \<in> set (filter (\<lambda>entry. level w \<ge> entryLevel entry) entries). status e \<noteq> Active"
    by simp
  from reduceEntries_no_spinner [OF this, of R "mainWidth w" "[]" 0 "spinners w'" "spinners w"]
  show ?thesis
    by (simp add: fullRender_def assms(2,3) case_prod_beta)
qed

lemma writeLoop_same:
  "prevOutput w = pre @ out \<Longrightarrow> y = length pre \<Longrightarrow> writeLoop out y ch w = (ch, w)"
proof (induction out arbitrary: pre y)
  case Nil
  show ?case by simp
next
  case (Cons line rest)
  from Cons.prems have "prevOutput w = (pre @ [line]) @ rest" "Suc y = length (pre @ [line])"
    by simp_all
  from Cons.IH [OF this] Cons.prems show ?case
    by (simp add: at_def nth_append)
qed

lemma writeOutput_same: "prevOutput w = out \<Longrightarrow> writeOutput out w = w"
  using writeLoop_same [of w "[]" out 0 False] by (simp add: writeOutput_def)

lemma render_calls:
  "calls (render ents dw w) =
     calls (if dw then w else writeOutput (splitLines (concat (map text ents))) w)"
  by (simp add: render_def Let_def startLoop_def stopLoop_def)

text \<open>
  C5, as stated: rendering the same graph twice issues no call the second time. With a
  running task in the graph it does: each build ticks the spinner of the task, the text
  of its line has the next frame, and the second rendering writes the line and repaints.
\<close>

theorem spinner_second_render_writes:
  "newCalls wSpin wSpinAgain = [SetLine 0 ''| building'', SetScrollPerc 100, ScreenRender]
   \<and> setLines (newCalls wSpin wSpinAgain) \<noteq> []"
proof -
  have "newCalls wSpin wSpinAgain = [SetLine 0 ''| building'', SetScrollPerc 100, ScreenRender]"
    by (simp add: wSpinAgain_def wSpin_def run_defs)
  then show ?thesis by simp
qed

text \<open>
  C5, amended: when no entry of the graph that passes the severity threshold is active,
  rendering the graph twice for the same entry, with nothing changed in between, makes no
  call at all on the canvas the second time: no \<open>setLine\<close> and no repaint.
\<close>

theorem render_twice_writes_nothing:
  assumes "\<forall>e \<in> set entries. entryLevel e \<le> level w \<longrightarrow> status e \<noteq> Active"
  shows "newCalls (renderChange R log entries False w)
           (renderChange R log entries False (renderChange R log entries False w)) = []"
proof -
  obtain ents w1 where f1: "fullRender R entries w = (ents, w1)"
    by (cases "fullRender R entries w")
  let ?W = "renderChange R log entries False w"
  obtain ents' w2 where f2: "fullRender R entries ?W = (ents', w2)"
    by (cases "fullRender R entries ?W")
  have "fst (fullRender R entries ?W) = fst (fullRender R entries w)"
    by (rule fullRender_no_spinner [OF assms]) (simp_all add: renderChange_fields)
  with f1 f2 have same: "ents' = ents" by simp
  from fullRender_fields [of R entries ?W] f2
  have w2: "calls w2 = calls ?W" "prevOutput w2 = prevOutput ?W" by simp_all
  show ?thesis
  proof (cases "find (\<lambda>e. key e = entryKey log) ents")
    case None
    with f2 same w2 show ?thesis
      by (simp add: renderChange_def [of R log entries False ?W] newCalls_def)
  next
    case (Some nextEntry)
    with f1 have "?W = render ents False w1"
      by (simp add: renderChange_def)
    then have "prevOutput ?W = splitLines (concat (map text ents))"
      by (simp add: render_prevOutput)
    with w2 have "writeOutput (splitLines (concat (map text ents))) w2 = w2"
      by (simp add: writeOutput_same)
    with Some f2 same w2 show ?thesis
      by (simp add: renderChange_def [of R log entries False ?W] newCalls_def render_calls)
  qed
qed

theorem render_twice_writes_nothing_witness:
  "setLines (calls (renderChange plainRenderers (streamEntry ''s'' ''one'') [streamEntry ''s'' ''one'']
         False (init 80 (newWriter LogLevel_info)))) = [(0, ''one'')]
   \<and> newCalls
       (renderChange plainRenderers (streamEntry ''s'' ''one'') [streamEntry ''s'' ''one''] False
          (init 80 (newWriter LogLevel_info)))
       (renderChange plainRenderers (streamEntry ''s'' ''one'') [streamEntry ''s'' ''one''] False
          (renderChange plainRenderers (streamEntry ''s'' ''one'') [streamEntry ''s'' ''one''] False
             (init 80 (newWriter LogLevel_info)))) = []"
proof -
  have h: "\<forall>e \<in> set [streamEntry ''s'' ''one'']. entryLevel e \<le> level (init 80 (newWriter LogLevel_info))
       \<longrightarrow> status e \<noteq> Active"
    by (simp add: streamEntry_def)
  have c: "setLines (calls (renderChange plainRenderers (streamEntry ''s'' ''one'')
         [streamEntry ''s'' ''one''] False (init 80 (newWriter LogLevel_info)))) = [(0, ''one'')]"
    by (simp add: run_defs)
  from c render_twice_writes_nothing [OF h, of plainRenderers "streamEntry ''s'' ''one''"]
  show ?thesis by simp
qed

section \<open>The outbound sink (C6)\<close>

text \<open>
  C6. A flush with a non-empty batch should hand it to the outbound sink, one call per
  non-empty kind. The flush of one buffered event builds the object
  \<open>{ sessionId, events }\<close> and logs "would post 1 events" between two empty lines on the
  console; it posts nothing.
\<close>

theorem flushBuffered_posts_nothing:
  "eventsToFlush (flushBuffered False oneEvent) = [\<lparr>name = ''taskComplete'', payload = ''{}''\<rparr>]
   \<and> events (flushBuffered False oneEvent) =
       Some (EventsPayload ''session'' [\<lparr>name = ''taskComplete'', payload = ''{}''\<rparr>])
   \<and> effects (flushBuffered False oneEvent) =
       [ConsoleLog Blank, ConsoleLog (WouldPostEvents 1), ConsoleLog Blank]
   \<and> posts (effects (flushBuffered False oneEvent)) = []"
  by (simp add: flushBuffered_def oneEvent_def streamEvent_def newBufferedEventStream_def
      MAX_BATCH_SIZE_def Let_def)

lemma flush_never_posts: "posts (effects (flushBuffered b s)) = []"
  by (simp add: flushBuffered_def Let_def)

text \<open>
  The objects are built as the sink expects them, one for each kind that is not empty,
  and a line on the console tells of each.
\<close>

lemma flush_payloads:
  "events (flushBuffered b s) =
     (if eventsToFlush (flushBuffered b s) = [] then None
      else Some (EventsPayload (sessionId s) (eventsToFlush (flushBuffered b s))))
   \<and> logEntries (flushBuffered b s) =
     (if logEntriesToFlush (flushBuffered b s) = [] then None
      else Some (LogEntriesPayload (sessionId s) (logEntriesToFlush (flushBuffered b s))))
   \<and> effects (flushBuffered b s) =
     (if eventsToFlush (flushBuffered b s) = [] then []
      else [ConsoleLog Blank,
            ConsoleLog (WouldPostEvents (length (eventsToFlush (flushBuffered b s)))),
            ConsoleLog Blank]) @
     (if logEntriesToFlush (flushBuffered b s) = [] then []
      else [ConsoleLog (WouldPostLogEntries (length (logEntriesToFlush (flushBuffered b s))))])"
  by (simp add: flushBuffered_def Let_def)
section \<open>The time of the last intercepted notification (C7)\<close>

text \<open>
  C7, as stated: a throttled notification leaves \<open>lastInterceptAt\<close> unchanged. It does
  not: the notification at time 1100, 100 ms after the one at time 1000, is throttled
  (the update is pending and nothing is rendered), and \<open>lastInterceptAt\<close> is 1100 after it.
\<close>

theorem throttled_updates_lastInterceptAt:
  "lastInterceptAt wOne = Some 1000
   \<and> throttleProcessing 1100 wOne
   \<and> updatePending wTwo
   \<and> newCalls wOne wTwo = []
   \<and> lastInterceptAt wTwo = Some 1100
   \<and> lastInterceptAt wTwo \<noteq> lastInterceptAt wOne"
  by (simp add: wOne_eval wTwo_eval throttleProcessing_def THROTTLE_MS_def newCalls_def)

text \<open>
  C7, amended: every notification from a standard stream that is not a deferred catch-up
  call sets \<open>lastInterceptAt\<close> to the current time, whether it is rendered now or
  throttled; every other call of \<open>handleGraphChange\<close> leaves it unchanged.
\<close>

theorem handleGraphChange_lastInterceptAt:
  "lastInterceptAt (handleGraphChange R now log entries didWrite w) =
     (if fromStdStream log \<and> \<not> didWrite then Some now else lastInterceptAt w)"
  by (simp add: handleGraphChange_def Let_def renderChange_fields stopLoop_def)

section \<open>The life of a spinner (C8)\<close>












text \<open>
  Every operation of the writer keeps the loop off or on entries with spinner coordinates.
\<close>

lemma loopHasSpinners_render: "loopHasSpinners (render ents dw w)"
  by (simp add: loopHasSpinners_def render_intervalID list_all_iff)

lemma loopHasSpinners_renderChange:
  "loopHasSpinners w \<Longrightarrow> loopHasSpinners (renderChange R log es dw w)"
proof -
  assume inv: "loopHasSpinners w"
  obtain ents w1 where f: "fullRender R es w = (ents, w1)"
    by (cases "fullRender R es w")
  with fullRender_fields [of R es w] have "intervalID w1 = intervalID w" by simp
  with inv have "loopHasSpinners w1" by (simp add: loopHasSpinners_def)
  with f show ?thesis
    by (simp add: renderChange_def loopHasSpinners_render split: option.split)
qed

lemma loopHasSpinners_handleGraphChange:
  "loopHasSpinners w \<Longrightarrow> loopHasSpinners (handleGraphChange R now log es dw w)"
proof -
  assume inv: "loopHasSpinners w"
  then have 1: "\<And>p l. loopHasSpinners (w\<lparr>updatePending := p, logger := l\<rparr>)"
    and 2: "\<And>p l t. loopHasSpinners (w\<lparr>updatePending := p, logger := l, lastInterceptAt := t\<rparr>)"
    by (simp_all add: loopHasSpinners_def)
  show ?thesis
    using loopHasSpinners_renderChange [OF 1] loopHasSpinners_renderChange [OF 2]
    by (simp add: handleGraphChange_def Let_def)
       (simp add: loopHasSpinners_def stopLoop_def)
qed

lemma loopHasSpinners_others:
  "loopHasSpinners (newWriter lvl)"
  "loopHasSpinners w \<Longrightarrow> loopHasSpinners (init width w)"
  "loopHasSpinners w \<Longrightarrow> loopHasSpinners (onGraphChange R width now log es w)"
  "loopHasSpinners w \<Longrightarrow> loopHasSpinners (timeoutCallback R now log es w)"
  "loopHasSpinners w \<Longrightarrow> loopHasSpinners (changeLevel R lvl es w)"
  "loopHasSpinners (stop w)"
  "loopHasSpinners w \<Longrightarrow> loopHasSpinners (cleanup w)"
proof -
  show "loopHasSpinners (newWriter lvl)"
    by (simp add: loopHasSpinners_def newWriter_def)
  show "loopHasSpinners (stop w)"
    by (simp add: loopHasSpinners_def stop_def stopLoop_def)
  assume inv: "loopHasSpinners w"
  then show i: "loopHasSpinners (init width w)" and "loopHasSpinners (cleanup w)"
    by (simp_all add: loopHasSpinners_def init_def cleanup_def)
  from inv show "loopHasSpinners (timeoutCallback R now log es w)"
    by (simp add: timeoutCallback_def loopHasSpinners_handleGraphChange)
  from inv have e: "\<And>m. loopHasSpinners (w\<lparr>errorMessages := m\<rparr>)"
    by (simp add: loopHasSpinners_def)
  then have "\<And>m. loopHasSpinners (init width (w\<lparr>errorMessages := m\<rparr>))"
    by (simp add: loopHasSpinners_def init_def)
  with inv i e show "loopHasSpinners (onGraphChange R width now log es w)"
    by (simp add: onGraphChange_def Let_def loopHasSpinners_handleGraphChange)
  show "loopHasSpinners (changeLevel R lvl es w)"
  proof (cases "logger w \<and> initialized w")
    case True
    obtain ents w2 where f: "fullRender R es (setContent [] (w\<lparr>level := lvl, prevOutput := []\<rparr>)) = (ents, w2)"
      by (cases "fullRender R es (setContent [] (w\<lparr>level := lvl, prevOutput := []\<rparr>))")
    with True show ?thesis
      by (simp add: changeLevel_def Let_def loopHasSpinners_render)
  next
    case False
    with inv show ?thesis
      by (auto simp: changeLevel_def Let_def loopHasSpinners_def)
  qed
qed

section \<open>Stopping the writer (C9)\<close>

text \<open>
  C9, as stated: \<open>stop\<close> stops the spinner timer, flushes the buffered error messages and
  releases the canvas, and no later notification is processed. After \<open>stop\<close> the timer is
  stopped, but the error message is still buffered and no call was made on the screen or
  the standard output; the notification that comes next is rendered and starts the timer
  again.
\<close>

theorem stop_does_not_flush:
  "intervalID wErr \<noteq> None \<and> intervalID (stop wErr) = None
   \<and> errorMessages (stop wErr) = [''boom\<newline>'']
   \<and> newCalls wErr (stop wErr) = []
   \<and> setLines (newCalls (stop wErr) wAfterStop) = [(0, ''| boom''), (1, ''next''), (2, [])]
   \<and> intervalID wAfterStop \<noteq> None"
  by (simp add: wAfterStop_def wErr_def run_defs)

lemma stopLoop_eq: "stopLoop w = w\<lparr>intervalID := None\<rparr>"
  by (cases "intervalID w") (simp_all add: stopLoop_def)

text \<open>
  C9, amended: \<open>stop\<close> stops the spinner timer and does nothing else, so the writer
  processes later notifications as before. Flushing the buffered error messages and
  releasing the canvas is what \<open>cleanup\<close> does: it destroys the screen, shows the cursor,
  writes the buffered messages to the standard output in their order and empties the
  buffer; it leaves the spinner timer as it is.
\<close>

theorem stop_only_stops_loop:
  "stop w = w\<lparr>intervalID := None\<rparr>
   \<and> errorMessages (stop w) = errorMessages w
   \<and> calls (stop w) = calls w
   \<and> calls (cleanup w) = calls w @ [ScreenDestroy, CursorShow] @ map StdoutWrite (errorMessages w)
   \<and> errorMessages (cleanup w) = []
   \<and> intervalID (cleanup w) = intervalID w"
  by (simp add: stop_def stopLoop_eq cleanup_def)

section \<open>Rows beyond the new output (C10)\<close>

lemma writeLoop_main:
  "r < y \<or> y + length out \<le> r \<Longrightarrow> main (snd (writeLoop out y ch w)) r = main w r"
  by (induction out y ch w rule: writeLoop.induct) (auto simp: setLine_def)

lemma write_main: "length out \<le> r \<Longrightarrow> main (writeOutput out w) r = main w r"
proof -
  assume le: "length out \<le> r"
  obtain ch w1 where r: "writeLoop out 0 False w = (ch, w1)"
    by (cases "writeLoop out 0 False w")
  from writeLoop_main [of r 0 out False w] le r have "main w1 r = main w r" by simp
  then show ?thesis
    by (simp add: writeOutput_def r screenRender_def setScrollPerc_def)
qed

text \<open>
  C10. \<open>setLine\<close> is called only at rows strictly below the number of lines of the new
  output; every row at or beyond that number keeps the text it had, so the trailing lines
  of a longer previous output stay on the canvas.
\<close>

theorem write_frame:
  "(\<forall>(y, l) \<in> set (setLines (newCalls w (writeOutput output w))). y < length output)
   \<and> (\<forall>y. length output \<le> y \<longrightarrow> main (writeOutput output w) y = main w y)"
  by (auto simp: newCalls_write write_main)

theorem write_frame_witness:
  "setLines (newCalls wABC (writeOutput [''x''] wABC)) = [(0, ''x'')]
   \<and> length [''x''] \<le> (1::nat) \<and> main (writeOutput [''x''] wABC) 1 = Some ''b''
   \<and> length [''x''] \<le> (2::nat) \<and> main (writeOutput [''x''] wABC) 2 = Some ''c''"
  using write_frame [of wABC "[''x'']"] newCalls_write [of wABC "[''x'']"]
  by (simp add: wABC_main wABC_prevOutput rowDiffers_def)


end
